theory Spec2Isabelle
  imports Main "HOL-Library.AList"
begin

section \<open>The routes of kuusi (web/routes/web.py)\<close>

text \<open>
  The module resolves the page to show, walks the chain of pages, finds or creates the
  visitor's session, copies the selections of an older session and redirects outgoing
  links. The Django models it works on (Page, Session, FacetteSelection, Category,
  Choosable) are declared in web.models, outside this module; their columns are taken
  from the way web.py reads and writes them.
\<close>

subsection \<open>Signals\<close>

text \<open>
  Every way in which a function of web.py leaves without a value: the exceptions Python
  raises on an attribute of \<open>None\<close>, on an index out of range and on a call of
  something that is no function, the not-found signal of Django, the two exceptions of
  \<open>objects.get\<close>, and the exception with which Django refuses the target of a
  redirect.
\<close>

datatype error =
  AttributeError | IndexError | TypeError | Http404 | DoesNotExist
| MultipleObjectsReturned | DisallowedRedirect

subsection \<open>Stored objects\<close>

text \<open>
  Modelled from the spec: the Session model. A row has a primary key, the identifier
  \<open>result_id\<close> that the visitor carries, the version tag \<open>valid_for\<close>, the
  back-reference \<open>session_origin\<close> (a foreign key, held as the key of the session it
  points to, or \<open>None\<close>), and the visitor's language, user agent and referrer.
\<close>

record session =
  session_pk :: nat
  result_id :: string
  valid_for :: string
  session_origin :: "nat option"
  language_code :: string
  user_agent :: "string option"
  referrer :: "string option"

text \<open>
  Modelled from the spec: the FacetteSelection model, a (session, facette) pair with
  the visitor's answer. \<open>selection_session\<close> is the attribute \<open>session\<close> and
  \<open>selection_pk\<close> the attribute \<open>pk\<close>.
\<close>

record facette_selection =
  selection_pk :: nat
  selection_session :: nat
  facette :: nat
  answer :: string

text \<open>
  Modelled from the spec: the Choosable model with its click counter and its mapping
  from property names to ChoosableMeta objects, of which the routes read \<open>meta_value\<close>.
\<close>

record choosable_meta =
  meta_value :: string

record choosable =
  choosable_pk :: nat
  clicked :: int
  meta :: "(string \<times> choosable_meta) list"

text \<open>
  The database: one list of rows for each model that the routes write to, in the order
  of the primary keys, which is the order of an unordered query and of
  \<open>QuerySet.first\<close>.
\<close>

record db =
  session_objects :: "session list"
  selection_objects :: "facette_selection list"
  choosable_objects :: "choosable list"

text \<open>\<open>QuerySet.first()\<close>: the first row of the result, or \<open>None\<close>.\<close>

definition first :: "'a list \<Rightarrow> 'a option" where
  "first xs = (case xs of [] \<Rightarrow> None | x # _ \<Rightarrow> Some x)"

text \<open>The key that the database gives to an inserted row: one above every key in use.\<close>

definition next_pk :: "nat list \<Rightarrow> nat" where
  "next_pk ks = Suc (fold max ks 0)"

text \<open>
  \<open>save()\<close> on an object that has no key yet inserts a row and sets the key of the
  object.
\<close>

definition insert_session :: "session \<Rightarrow> db \<Rightarrow> session \<times> db" where
  "insert_session s d =
     (let s' = s\<lparr>session_pk := next_pk (map session_pk (session_objects d))\<rparr>
      in (s', d\<lparr>session_objects := session_objects d @ [s']\<rparr>))"

text \<open>
  \<open>save()\<close> on an object that has a key writes the object's fields over the row of
  that key; when no row has the key, the object is inserted.
\<close>

definition save_session :: "session \<Rightarrow> db \<Rightarrow> db" where
  "save_session s d =
     (if session_pk s \<in> set (map session_pk (session_objects d))
      then d\<lparr>session_objects :=
               map (\<lambda>r. if session_pk r = session_pk s then s else r) (session_objects d)\<rparr>
      else d\<lparr>session_objects := session_objects d @ [s]\<rparr>)"


subsection \<open>The request\<close>

text \<open>
  What the routes read and write of a \<open>WebHttpRequest\<close>: the visitor's session store
  \<open>request.session\<close> (here \<open>req_session\<close>), the headers, the query parameters, the
  method and the full path, and the attributes that \<open>route_index\<close> attaches. The
  dictionaries are association lists read with \<open>map_of\<close>.
\<close>

record request =
  req_session :: "(string \<times> string) list"
  headers :: "(string \<times> string) list"
  GET :: "(string \<times> string) list"
  req_method :: string
  full_path :: string
  session_obj :: "session option"
  has_errors :: bool
  has_warnings :: bool
  LANGUAGE_CODE :: string

subsection \<open>Pages and categories\<close>

text \<open>
  Modelled from the spec: the Category model, a grouping that points to its target page
  and, for a minor category, to its parent.
\<close>

record 'p category =
  category_pk :: nat
  target_page :: 'p
  child_of :: "nat option"
  icon :: string

text \<open>
  Modelled from the spec: the Page model and the read-only reference data. A page is an
  object of type \<open>'p\<close>; the record holds the rows of \<open>Page.objects\<close> and
  \<open>Category.objects\<close> and, as functions of the page, what web.py reads of a page: its
  columns, the two ordering links (each a reference to another page or \<open>None\<close>), the
  flag \<open>require_session\<close>, the visibility rule \<open>is_visible\<close>, which depends on the
  session and its stored selections, and \<open>Page.next_visible_page\<close>, which looks for a
  visible substitute further along the chain and whose result \<open>route_index\<close> uses as
  a page.
\<close>

record 'p catalogue =
  page_objects :: "'p list"
  category_objects :: "'p category list"
  catalogue_id :: "'p \<Rightarrow> string"
  is_invalidated :: "'p \<Rightarrow> bool"
  previous_page :: "'p \<Rightarrow> 'p option"
  next_page :: "'p \<Rightarrow> 'p option"
  require_session :: "'p \<Rightarrow> bool"
  href :: "'p \<Rightarrow> string"
  is_visible :: "'p \<Rightarrow> session \<Rightarrow> db \<Rightarrow> bool"
  next_visible_page :: "'p \<Rightarrow> session \<Rightarrow> db \<Rightarrow> 'p option"

subsection \<open>get_page_route\<close>

text \<open>
  The first loop of \<open>get_page_route\<close>:
  \<^verbatim>\<open>
    while prev_page is not None:
        if prev_page:
            pages = [prev_page] + pages
            prev_page = prev_page.previous_page
        else:
            prev_page = None
  \<close>
  A model instance is true in Python (the class defines neither \<open>__bool__\<close> nor
  \<open>__len__\<close>), so inside the loop the test \<open>if prev_page\<close> always succeeds. Nothing
  bounds the number of iterations: the loop is a partial function, and \<open>None\<close> is the
  value of a walk that never ends.
\<close>

partial_function (option) walk_previous ::
  "('p \<Rightarrow> 'p option) \<Rightarrow> 'p option \<Rightarrow> 'p list \<Rightarrow> 'p list option"
where
  "walk_previous prev prev_page pages =
     (case prev_page of
        None \<Rightarrow> Some pages
      | Some p \<Rightarrow> walk_previous prev (prev p) (p # pages))"

text \<open>
  The second loop, which appends. It ends when its variable \<open>next_page\<close> (here
  \<open>next_page'\<close>, the plain name being the attribute) is \<open>None\<close>, and the function
  returns that variable afterwards, so the loop hands back the variable together with
  the list.
\<close>

partial_function (option) walk_next ::
  "('p \<Rightarrow> 'p option) \<Rightarrow> 'p option \<Rightarrow> 'p list \<Rightarrow> ('p option \<times> 'p list) option"
where
  "walk_next nxt next_page' pages =
     (case next_page' of
        None \<Rightarrow> Some (next_page', pages)
      | Some p \<Rightarrow> walk_next nxt (nxt p) (pages @ [p]))"

declare walk_previous.simps [code]
declare walk_next.simps [code]

definition get_page_route :: "'p catalogue \<Rightarrow> 'p \<Rightarrow> ('p option \<times> 'p list) option" where
  "get_page_route C page =
     (case walk_previous (previous_page C) (previous_page C page) [] of
        None \<Rightarrow> None
      | Some pages \<Rightarrow> walk_next (next_page C) (next_page C page) (pages @ [page]))"

text \<open>
  A chain of pages: \<open>linked C prv ps\<close> says that \<open>ps\<close> is linked in both directions,
  its first page pointing back to \<open>prv\<close> and its last page having no successor.
  \<open>page_chain C ps\<close> is a whole chain, whose first page has no predecessor.
\<close>

fun linked :: "'p catalogue \<Rightarrow> 'p option \<Rightarrow> 'p list \<Rightarrow> bool" where
  "linked C prv [] = False"
| "linked C prv [p] = (previous_page C p = prv \<and> next_page C p = None)"
| "linked C prv (p # q # ps) =
     (previous_page C p = prv \<and> next_page C p = Some q \<and> linked C (Some p) (q # ps))"

definition page_chain :: "'p catalogue \<Rightarrow> 'p list \<Rightarrow> bool" where
  "page_chain C ps = linked C None ps"

subsection \<open>get_session and get_fresh_session\<close>

text \<open>
  \<open>Session(user_agent=user_agent)\<close> fills the other columns with the defaults of the
  model, the generated \<open>result_id\<close> among them. The object that the constructor builds
  from the defaults alone is the parameter \<open>fresh\<close> of the functions that create a
  session; its key is given by \<open>save()\<close>. The referrer is set after \<open>save()\<close>, so it
  is on the returned object and not on the stored row.
\<close>

definition get_fresh_session :: "session \<Rightarrow> request \<Rightarrow> db \<Rightarrow> session \<times> db" where
  "get_fresh_session fresh request d =
     (let user_agent' = map_of (headers request) ''user-agent'';
          (session, d') = insert_session (fresh\<lparr>user_agent := user_agent'\<rparr>) d
      in (session\<lparr>referrer := map_of (headers request) ''referrer''\<rparr>, d'))"

text \<open>
  The local variable \<open>session\<close> starts as \<open>None\<close>; \<open>found\<close> is its value, with the
  database, when the \<open>if\<close> is left. Reading \<open>valid_for\<close> of the result of \<open>first()\<close>
  and \<open>result_id\<close> of \<open>session\<close> in the last assignment raise \<open>AttributeError\<close> when
  the object is \<open>None\<close>.
\<close>

definition get_session ::
  "session \<Rightarrow> 'p catalogue \<Rightarrow> 'p \<Rightarrow> request \<Rightarrow> db \<Rightarrow> error + (session \<times> request \<times> db)"
where
  "get_session fresh C page request d =
     (let found =
        (if require_session C page then
           (case map_of (req_session request) ''result_id'' of
              None \<Rightarrow> Inr (map_prod Some (\<lambda>x. x) (get_fresh_session fresh request d))
            | Some rid \<Rightarrow>
                (case first (filter (\<lambda>s. result_id s = rid) (session_objects d)) of
                   None \<Rightarrow> Inl AttributeError
                 | Some session \<Rightarrow>
                     if valid_for session \<noteq> ''latest''
                     then Inr (map_prod Some (\<lambda>x. x) (get_fresh_session fresh request d))
                     else Inr (Some session, d)))
         else Inr (None, d))
      in case found of
           Inl e \<Rightarrow> Inl e
         | Inr (None, d') \<Rightarrow> Inl AttributeError
         | Inr (Some session, d') \<Rightarrow>
             Inr (session,
                  request\<lparr>req_session :=
                    AList.update ''result_id'' (result_id session) (req_session request)\<rparr>,
                  d'))"

subsection \<open>clone_selections\<close>

text \<open>\<open>FacetteSelection.objects.filter(session=s)\<close>, for the session of key \<open>k\<close>.\<close>

definition selections_of :: "db \<Rightarrow> nat \<Rightarrow> facette_selection list" where
  "selections_of d k = filter (\<lambda>x. selection_session x = k) (selection_objects d)"

text \<open>
  One turn of the loop over the old session's selections: when the new session has no
  selection of this facette, the selection is saved again with its key reset and its
  session changed, which inserts a copy.
\<close>

definition copy_selection :: "session \<Rightarrow> facette_selection \<Rightarrow> db \<Rightarrow> db" where
  "copy_selection session selection d =
     (if length (filter (\<lambda>x. selection_session x = session_pk session
                              \<and> facette x = facette selection) (selection_objects d)) = 0
      then d\<lparr>selection_objects := selection_objects d @
               [selection\<lparr>selection_pk := next_pk (map selection_pk (selection_objects d)),
                          selection_session := session_pk session\<rparr>]\<rparr>
      else d)"

text \<open>
  The function returns nothing; its effects are on the request, on the session object
  that the caller passed, and on the database, and these three are the result here. In
  the branch that creates a new session the name \<open>session\<close> is bound to the new
  object, so the caller's object stays as it was. Two model instances are equal when
  their keys are.
\<close>

definition clone_selections ::
  "session \<Rightarrow> string \<Rightarrow> request \<Rightarrow> session \<Rightarrow> db \<Rightarrow> request \<times> session \<times> db"
where
  "clone_selections fresh id' request session d =
     (case first (filter (\<lambda>s. result_id s = id') (session_objects d)) of
        None \<Rightarrow> (request, session, d)
      | Some old_session \<Rightarrow>
          if session_origin session = None then
            (let selections = selections_of d (session_pk old_session);
                 d1 = fold (copy_selection session) selections d;
                 session' = session\<lparr>valid_for := valid_for old_session,
                                     session_origin := Some (session_pk old_session)\<rparr>
             in (request, session', save_session session' d1))
          else if session_origin session \<noteq> Some (session_pk old_session) then
            (let user_agent' = map_of (headers request) ''user-agent'';
                 (new_session, d') =
                   insert_session
                     (fresh\<lparr>user_agent := user_agent',
                            session_origin := Some (session_pk old_session)\<rparr>) d
             in (request\<lparr>req_session :=
                    AList.update ''result_id'' (result_id new_session) (req_session request)\<rparr>,
                 session, d'))
          else (request, session, d))"

subsection \<open>route_outgoing\<close>


text \<open>
  The responses of the routes: a redirect to a target, and a rendered page with its
  status (\<open>None\<close> is a status that is left to Django, which then answers 200).
\<close>

datatype response =
  HttpResponseRedirect string
| HttpResponse string "nat option"



subsection \<open>get_categories_and_filtered_pages and build_step_data\<close>

definition get_categories_and_filtered_pages ::
  "'p catalogue \<Rightarrow> 'p list \<Rightarrow> session \<Rightarrow> db \<Rightarrow> 'p list \<times> 'p category list"
where
  "get_categories_and_filtered_pages C pages session d =
     (let version_comp_pages =
            filter (\<lambda>chained_page. is_visible C chained_page session d) pages;
          categories =
            concat (map (\<lambda>chained_page.
              (let used_in_category =
                     filter (\<lambda>c. target_page c = chained_page \<and> child_of c = None)
                       (category_objects C)
               in if length used_in_category > 0
                  then (case first used_in_category of None \<Rightarrow> [] | Some c \<Rightarrow> [c])
                  else [])) pages)
      in (version_comp_pages, categories))"

text \<open>
  A step of the navigation, the dictionary with the keys \<open>icon\<close>, \<open>major\<close> and
  \<open>minor\<close>. \<open>Category.to_step\<close> is a collaborator: it is the parameter \<open>to_step\<close>,
  whose last argument is the "is last" flag, \<open>None\<close> where the call leaves it out.
\<close>

record 's step =
  step_icon :: string
  major :: 's
  minor :: "'s list"

definition build_step_data ::
  "('p category \<Rightarrow> request \<Rightarrow> bool option \<Rightarrow> 's) \<Rightarrow> 'p catalogue \<Rightarrow> 'p category list
     \<Rightarrow> request \<Rightarrow> 's step list"
where
  "build_step_data to_step C categories request =
     map (\<lambda>(index, category).
            (let category_step =
                   to_step category request
                     (Some (int index = int (length categories) - 1));
                 child_categories =
                   filter (\<lambda>c. child_of c = Some (category_pk category)) (category_objects C);
                 minor_steps =
                   map (\<lambda>child_category. to_step child_category request None)
                     child_categories
             in \<lparr>step_icon = icon category, major = category_step, minor = minor_steps\<rparr>))
       (enumerate 0 categories)"

subsection \<open>route_index\<close>

text \<open>
  The context that is handed to the template; the entries that only repeat constants of
  kuusi.settings (the title, the acceleration and debug flags, the language codes and
  the translation URL) are not listed.
\<close>

record ('p, 's) template_context =
  ctx_page :: 'p
  ctx_steps :: "'s step list"
  ctx_language_code :: string
  ctx_session :: session
  ctx_is_old :: bool
  ctx_locale_incomplete :: bool

text \<open>
  The settings and the collaborators of \<open>route_index\<close> that live outside web.py: two
  constants of the settings, \<open>Category.to_step\<close>, the renderer of the template, and
  \<open>forward_helper\<close>, which handles a POST and answers with a status to overwrite and
  an optional response; what it changes of the session, the request and the database
  is part of its result.
\<close>

record ('p, 's) site =
  DEFAULT_LANGUAGE_CODE :: string
  INCOMPLETE_TRANSLATIONS :: "string list"
  to_step :: "'p category \<Rightarrow> request \<Rightarrow> bool option \<Rightarrow> 's"
  render :: "('p, 's) template_context \<Rightarrow> request \<Rightarrow> string"
  forward_helper ::
    "string option \<Rightarrow> nat \<Rightarrow> session \<Rightarrow> string \<Rightarrow> 'p \<Rightarrow> request \<Rightarrow> db
       \<Rightarrow> (nat option \<times> response option) \<times> session \<times> request \<times> db"

text \<open>The test \<open>sub in s\<close> on two strings.\<close>

definition contains :: "string \<Rightarrow> string \<Rightarrow> bool" where
  "contains sub s =
     list_ex (\<lambda>i. take (length sub) (drop i s) = sub) [0 ..< Suc (length s)]"

text \<open>
  The page of the request (the first lines of \<open>route_index\<close>): \<open>objects.get\<close>
  raises unless exactly one row matches; \<open>first()\<close> may find no page.
\<close>

definition requested_page :: "'p catalogue \<Rightarrow> request \<Rightarrow> error + 'p option" where
  "requested_page C request =
     (case map_of (GET request) ''page'' of
        Some page_id \<Rightarrow>
          if page_id \<noteq> [] then
            (case filter (\<lambda>p. catalogue_id C p = page_id \<and> \<not> is_invalidated C p)
                    (page_objects C) of
               [] \<Rightarrow> Inl DoesNotExist
             | [p] \<Rightarrow> Inr (Some p)
             | _ \<Rightarrow> Inl MultipleObjectsReturned)
          else Inr (first (filter (\<lambda>p. \<not> is_invalidated C p) (page_objects C)))
      | None \<Rightarrow> Inr (first (filter (\<lambda>p. \<not> is_invalidated C p) (page_objects C))))"

text \<open>
  The end of \<open>route_index\<close>, from the line that reads \<open>request.get_full_path()\<close>:
  on the start page the first of the visible pages is read, which raises \<open>IndexError\<close>
  when the list is empty; a page that is not visible is replaced by the result of
  \<open>Page.next_visible_page\<close>, and \<open>is_visible\<close> of that result is read, which raises
  \<open>AttributeError\<close> when the result is \<open>None\<close>. For a page that is still not
  visible the code builds \<open>HttpResponseNotAllowed(_("PAGE_NOT_AVAILABLE"))\<close>. The
  assignment \<open>_, pages = get_page_route(page)\<close> has made \<open>_\<close> a local variable of
  \<open>route_index\<close>, which hides the imported \<open>gettext_lazy\<close> and holds the first
  component of the route, \<open>None\<close> or a page; neither can be called, so the call
  raises \<open>TypeError\<close> and the response is never built. \<open>request.session_obj\<close> is the
  session object itself.
\<close>

definition respond ::
  "('p, 's) site \<Rightarrow> 'p catalogue \<Rightarrow> request \<Rightarrow> string option \<Rightarrow> 'p \<Rightarrow> session
     \<Rightarrow> 'p list \<Rightarrow> 'p category list \<Rightarrow> string \<Rightarrow> nat option \<Rightarrow> db \<Rightarrow> error + response"
where
  "respond S C request language_code' page session pages categories base_url
     overwrite_status d =
     (let current_location = full_path request
      in if length current_location \<le> 1 \<and> pages = [] then Inl IndexError
         else
           (let current_location' =
                  (if length current_location \<le> 1 then base_url @ href C (hd pages)
                   else current_location);
                page' = (if \<not> is_visible C page session d
                         then next_visible_page C page session d else Some page);
                step_data = build_step_data (to_step S) C categories request
            in case page' of
                 None \<Rightarrow> Inl AttributeError
               | Some page'' \<Rightarrow>
                   if \<not> is_visible C page'' session d
                   then Inl TypeError
                   else
                     (let context =
                            \<lparr>ctx_page = page'', ctx_steps = step_data,
                             ctx_language_code = LANGUAGE_CODE request,
                             ctx_session = session,
                             ctx_is_old = (valid_for session \<noteq> ''latest''),
                             ctx_locale_incomplete =
                               (case language_code' of
                                  None \<Rightarrow> False
                                | Some l \<Rightarrow> l \<in> set (INCOMPLETE_TRANSLATIONS S))\<rparr>;
                          overwrite_status' =
                            (case map_of (headers request) ''accept'' of
                               None \<Rightarrow> Some 200
                             | Some a \<Rightarrow>
                                 if contains ''turbo'' a then overwrite_status else Some 200)
                      in Inr (HttpResponse (render S context request) overwrite_status'))))"

text \<open>
  \<open>route_index\<close>. Its result is \<open>None\<close> when the walk along the chain never ends,
  an error when a line raises, and otherwise the response with the request and the
  database as the handler leaves them. \<open>fresh\<close> and \<open>fresh'\<close> are the objects that
  the two places that may create a session build from the defaults. Loading the
  template and activating the translation are Django's and have no part here.
\<close>

definition route_index ::
  "('p, 's) site \<Rightarrow> session \<Rightarrow> session \<Rightarrow> 'p catalogue \<Rightarrow> request \<Rightarrow> string option
     \<Rightarrow> string option \<Rightarrow> db \<Rightarrow> (error + response \<times> request \<times> db) option"
where
  "route_index S fresh fresh' C request language_code' id' d =
     (case requested_page C request of
        Inl e \<Rightarrow> Some (Inl e)
      | Inr None \<Rightarrow> Some (Inl AttributeError)
      | Inr (Some page) \<Rightarrow>
          (case get_page_route C page of
             None \<Rightarrow> None
           | Some (_, pages) \<Rightarrow>
               (case get_session fresh C page request d of
                  Inl e \<Rightarrow> Some (Inl e)
                | Inr (session, request1, d1) \<Rightarrow>
                    (let (request2, session2, d2) =
                           (case id' of
                              None \<Rightarrow> (request1, session, d1)
                            | Some i \<Rightarrow> clone_selections fresh' i request1 session d1);
                         lang = (case language_code' of
                                   None \<Rightarrow> DEFAULT_LANGUAGE_CODE S
                                 | Some l \<Rightarrow> if l = [] then DEFAULT_LANGUAGE_CODE S else l);
                         (session3, d3) =
                           (if language_code session2 \<noteq> lang
                            then (session2\<lparr>language_code := lang\<rparr>,
                                  save_session (session2\<lparr>language_code := lang\<rparr>) d2)
                            else (session2, d2));
                         request3 = request2\<lparr>session_obj := Some session3,
                                      has_errors := False, has_warnings := False,
                                      LANGUAGE_CODE := lang\<rparr>;
                         (pages', categories) =
                           get_categories_and_filtered_pages C pages session3 d3;
                         base_url = ''/'' @ lang @
                           (case id' of
                              None \<Rightarrow> []
                            | Some i \<Rightarrow> if i = [] then [] else ''/'' @ i)
                     in if req_method request3 = ''POST'' then
                          (let ((overwrite_status, response'), session4, request4, d4) =
                                 forward_helper S id' 200 session3 base_url page request3 d3
                           in case response' of
                                Some r \<Rightarrow>
                                  if overwrite_status = None \<or> overwrite_status = Some 0
                                  then Some (Inr (r, request4, d4))
                                  else Some (map_sum (\<lambda>e. e) (\<lambda>r. (r, request4, d4))
                                         (respond S C request4 language_code' page session4
                                            pages' categories base_url overwrite_status d4))
                              | None \<Rightarrow>
                                  Some (map_sum (\<lambda>e. e) (\<lambda>r. (r, request4, d4))
                                    (respond S C request4 language_code' page session4
                                       pages' categories base_url overwrite_status d4)))
                        else
                          Some (map_sum (\<lambda>e. e) (\<lambda>r. (r, request3, d3))
                            (respond S C request3 language_code' page session3
                               pages' categories base_url (Some 200) d3))))))"

subsection \<open>Example data\<close>

text \<open>
  The chain A, B, C. The welcome page A asks for no session; every page is visible.
\<close>

definition abc :: "string catalogue" where
  "abc =
     \<lparr>page_objects = [''A'', ''B'', ''C''], category_objects = [],
      catalogue_id = (\<lambda>p. p), is_invalidated = (\<lambda>_. False),
      previous_page =
        (\<lambda>p. if p = ''B'' then Some ''A'' else if p = ''C'' then Some ''B'' else None),
      next_page =
        (\<lambda>p. if p = ''A'' then Some ''B'' else if p = ''B'' then Some ''C'' else None),
      require_session = (\<lambda>p. p \<noteq> ''A''), href = (\<lambda>p. ''?page='' @ p),
      is_visible = (\<lambda>_ _ _. True), next_visible_page = (\<lambda>_ _ _. None)\<rparr>"

text \<open>Two pages whose links run in a circle.\<close>

definition ring :: "string catalogue" where
  "ring =
     \<lparr>page_objects = [''A'', ''B''], category_objects = [],
      catalogue_id = (\<lambda>p. p), is_invalidated = (\<lambda>_. False),
      previous_page = (\<lambda>p. if p = ''A'' then Some ''B'' else Some ''A''),
      next_page = (\<lambda>p. if p = ''A'' then Some ''B'' else Some ''A''),
      require_session = (\<lambda>_. True), href = (\<lambda>p. ''?page='' @ p),
      is_visible = (\<lambda>_ _ _. True), next_visible_page = (\<lambda>_ _ _. None)\<rparr>"

text \<open>
  The chain A, B, C again, with every page asking for a session and no page visible;
  \<open>next_visible_page\<close> finds no substitute and answers with the last page.
\<close>

definition hidden :: "string catalogue" where
  "hidden =
     \<lparr>page_objects = [''A'', ''B'', ''C''], category_objects = [],
      catalogue_id = (\<lambda>p. p), is_invalidated = (\<lambda>_. False),
      previous_page =
        (\<lambda>p. if p = ''B'' then Some ''A'' else if p = ''C'' then Some ''B'' else None),
      next_page =
        (\<lambda>p. if p = ''A'' then Some ''B'' else if p = ''B'' then Some ''C'' else None),
      require_session = (\<lambda>_. True), href = (\<lambda>p. ''?page='' @ p),
      is_visible = (\<lambda>_ _ _. False), next_visible_page = (\<lambda>_ _ _. Some ''C'')\<rparr>"

text \<open>
  Three stored sessions: \<open>s1\<close> of an older version with two selections, \<open>s2\<close> with
  one selection and no origin, and \<open>s3\<close>, which was cloned from \<open>s2\<close>. \<open>blank\<close> is
  a session as the constructor builds it from the defaults.
\<close>

definition blank :: session where
  "blank = \<lparr>session_pk = 0, result_id = ''r9'', valid_for = ''latest'',
            session_origin = None, language_code = ''en'', user_agent = None,
            referrer = None\<rparr>"

definition s1 :: session where
  "s1 = \<lparr>session_pk = 1, result_id = ''r1'', valid_for = ''v3'',
         session_origin = None, language_code = ''en'', user_agent = None,
         referrer = None\<rparr>"

definition s2 :: session where
  "s2 = \<lparr>session_pk = 2, result_id = ''r2'', valid_for = ''latest'',
         session_origin = None, language_code = ''en'', user_agent = None,
         referrer = None\<rparr>"

definition s3 :: session where
  "s3 = \<lparr>session_pk = 3, result_id = ''r3'', valid_for = ''latest'',
         session_origin = Some 2, language_code = ''en'', user_agent = None,
         referrer = None\<rparr>"

definition store :: db where
  "store =
     \<lparr>session_objects = [s1, s2, s3],
      selection_objects =
        [\<lparr>selection_pk = 1, selection_session = 1, facette = 7, answer = ''x''\<rparr>,
         \<lparr>selection_pk = 2, selection_session = 1, facette = 8, answer = ''w''\<rparr>,
         \<lparr>selection_pk = 3, selection_session = 2, facette = 8, answer = ''z''\<rparr>],
      choosable_objects =
        [\<lparr>choosable_pk = 5, clicked = 41,
          meta = [(''HOMEPAGE'', \<lparr>meta_value = ''https://example.org/''\<rparr>)]\<rparr>,
         \<lparr>choosable_pk = 6, clicked = 0,
          meta = [(''CONTACT'', \<lparr>meta_value = ''mailto:info@example.org''\<rparr>)]\<rparr>]\<rparr>"







text \<open>
  A visitor who carries the identifier of \<open>s3\<close>, a visitor whose identifier matches
  no stored session, and a first visit of the start page.
\<close>

definition visitor :: request where
  "visitor =
     \<lparr>req_session = [(''result_id'', ''r3'')], headers = [(''user-agent'', ''curl'')],
      GET = [], req_method = ''GET'', full_path = ''/en'', session_obj = None,
      has_errors = False, has_warnings = False, LANGUAGE_CODE = []\<rparr>"

definition stranger :: request where
  "stranger =
     \<lparr>req_session = [(''result_id'', ''r0'')], headers = [(''user-agent'', ''curl'')],
      GET = [], req_method = ''GET'', full_path = ''/en'', session_obj = None,
      has_errors = False, has_warnings = False, LANGUAGE_CODE = []\<rparr>"

definition first_visit :: request where
  "first_visit =
     \<lparr>req_session = [], headers = [(''user-agent'', ''curl'')],
      GET = [], req_method = ''GET'', full_path = ''/'', session_obj = None,
      has_errors = False, has_warnings = False, LANGUAGE_CODE = []\<rparr>"

text \<open>
  The state after \<open>clone_selections\<close> was called once for the visitor's session
  \<open>s3\<close>, whose origin is \<open>s2\<close>, with the identifier of \<open>s1\<close>.
\<close>

definition cloned_once :: "request \<times> session \<times> db" where
  "cloned_once = clone_selections blank ''r1'' visitor s3 store"

text \<open>A site whose collaborators do nothing of interest.\<close>

definition plain_site :: "(string, string) site" where
  "plain_site =
     \<lparr>DEFAULT_LANGUAGE_CODE = ''en'', INCOMPLETE_TRANSLATIONS = [],
      to_step = (\<lambda>c _ _. icon c), render = (\<lambda>_ _. ''<html>''),
      forward_helper = (\<lambda>_ status session _ _ request d. ((Some status, None), session, request, d))\<rparr>"

section \<open>Properties of the page chain\<close>

subsection \<open>Links of a chain\<close>

lemma linked_previous:
  "linked C prv (xs @ p # ys) \<Longrightarrow>
     previous_page C p = (if xs = [] then prv else Some (last xs))"
proof (induction xs arbitrary: prv)
  case Nil
  then show ?case by (cases ys) auto
next
  case (Cons x xs)
  then show ?case by (cases xs) auto
qed

lemma linked_next:
  "linked C prv (xs @ p # ys) \<Longrightarrow>
     next_page C p = (case ys of [] \<Rightarrow> None | y # _ \<Rightarrow> Some y)"
proof (induction xs arbitrary: prv)
  case Nil
  then show ?case by (cases ys) auto
next
  case (Cons x xs)
  then show ?case by (cases xs) auto
qed

text \<open>The walk back from a page of a chain collects the pages before it, in order.\<close>

lemma walk_previous_linked:
  "linked C None (xs @ p # ys) \<Longrightarrow>
     walk_previous (previous_page C) (previous_page C p) acc = Some (xs @ acc)"
proof (induction xs arbitrary: p ys acc rule: rev_induct)
  case Nil
  then show ?case
    using linked_previous [of C None "[]" p ys] by (simp add: walk_previous.simps)
next
  case (snoc x xs)
  have "previous_page C p = Some x"
    using linked_previous [OF snoc.prems] by simp
  moreover have
    "walk_previous (previous_page C) (previous_page C x) (x # acc) = Some (xs @ x # acc)"
    using snoc.IH [of x "p # ys" "x # acc"] snoc.prems by simp
  ultimately show ?case
    by (simp add: walk_previous.simps)
qed

text \<open>The walk forward collects the pages after it and ends with its variable None.\<close>

lemma walk_next_linked:
  "linked C prv (xs @ p # ys) \<Longrightarrow>
     walk_next (next_page C) (next_page C p) acc = Some (None, acc @ ys)"
proof (induction ys arbitrary: xs p acc)
  case Nil
  then show ?case
    using linked_next [of C prv xs p "[]"] by (simp add: walk_next.simps)
next
  case (Cons y ys)
  have "next_page C p = Some y"
    using linked_next [OF Cons.prems] by simp
  moreover have
    "walk_next (next_page C) (next_page C y) (acc @ [y]) = Some (None, (acc @ [y]) @ ys)"
    using Cons.IH [of "xs @ [p]" y "acc @ [y]"] Cons.prems by simp
  ultimately show ?case
    by (simp add: walk_next.simps)
qed

lemma get_page_route_linked:
  "page_chain C (xs @ p # ys) \<Longrightarrow> get_page_route C p = Some (None, xs @ p # ys)"
  unfolding page_chain_def get_page_route_def
  by (simp add: walk_previous_linked walk_next_linked [where prv = None and xs = xs])

lemma get_page_route_nth:
  assumes "page_chain C ps" and "i < length ps"
  shows "get_page_route C (ps ! i) = Some (None, ps)"
proof -
  have "page_chain C (take i ps @ ps ! i # drop (Suc i) ps)"
    using assms id_take_nth_drop [OF assms(2)] by simp
  from get_page_route_linked [OF this] show ?thesis
    using id_take_nth_drop [OF assms(2)] by simp
qed

text \<open>A page occurs once in a chain: the walk back from it fixes its position.\<close>

lemma page_chain_distinct:
  assumes ch: "page_chain C ps"
  shows "distinct ps"
proof -
  have pre: "walk_previous (previous_page C) (previous_page C (ps ! i)) [] = Some (take i ps)"
    if "i < length ps" for i
  proof -
    have "linked C None (take i ps @ ps ! i # drop (Suc i) ps)"
      using ch id_take_nth_drop [OF that] by (simp add: page_chain_def)
    then show ?thesis
      using walk_previous_linked [where acc = "[]"] by fastforce
  qed
  have "i = j" if "i < length ps" "j < length ps" "ps ! i = ps ! j" for i j
  proof -
    have "take i ps = take j ps"
      using pre [OF that(1)] pre [OF that(2)] that(3) by simp
    then have "length (take i ps) = length (take j ps)" by simp
    then show ?thesis using that by simp
  qed
  then show ?thesis by (auto simp: distinct_conv_nth)
qed

subsection \<open>Walks that return\<close>

text \<open>
  Whenever the walk forward returns, the variable it hands back is None: the loop is
  left only when the variable is None.
\<close>

lemma walk_next_returns_None:
  "walk_next nxt np ac = Some z \<Longrightarrow> fst z = None"
proof (erule walk_next.raw_induct [where P = "\<lambda>nxt np ac z. fst z = None", rotated])
  fix f :: "('a \<Rightarrow> 'a option) \<Rightarrow> 'a option \<Rightarrow> 'a list \<Rightarrow> ('a option \<times> 'a list) option"
    and nxt np ac z
  assume IH: "\<And>nxt np ac z. f nxt np ac = Some z \<Longrightarrow> fst z = None"
    and step: "(case np of None \<Rightarrow> Some (np, ac) | Some p \<Rightarrow> f nxt (nxt p) (ac @ [p])) = Some z"
  show "fst z = None"
  proof (cases np)
    case None
    with step show ?thesis by auto
  next
    case (Some p)
    with step have "f nxt (nxt p) (ac @ [p]) = Some z" by simp
    from IH [OF this] show ?thesis .
  qed
qed

lemma get_page_route_returns_None:
  "get_page_route C page = Some (n, ps) \<Longrightarrow> n = None"
  using walk_next_returns_None [of "next_page C" "next_page C page" _ "(n, ps)"]
  by (auto simp: get_page_route_def split: option.splits)

text \<open>
  When every page has a predecessor, the walk back returns only if it starts at None.
\<close>

lemma walk_previous_endless:
  "walk_previous prev pp ac = Some z \<Longrightarrow> (\<forall>q. prev q \<noteq> None) \<longrightarrow> pp = None"
proof (erule walk_previous.raw_induct
        [where P = "\<lambda>prev pp ac z. (\<forall>q. prev q \<noteq> None) \<longrightarrow> pp = None", rotated])
  fix f :: "('a \<Rightarrow> 'a option) \<Rightarrow> 'a option \<Rightarrow> 'a list \<Rightarrow> 'a list option"
    and prev pp ac z
  assume IH: "\<And>prev pp ac z. f prev pp ac = Some z \<Longrightarrow> (\<forall>q. prev q \<noteq> None) \<longrightarrow> pp = None"
    and step: "(case pp of None \<Rightarrow> Some ac | Some p \<Rightarrow> f prev (prev p) (p # ac)) = Some z"
  show "(\<forall>q. prev q \<noteq> None) \<longrightarrow> pp = None"
  proof (cases pp)
    case None
    then show ?thesis by simp
  next
    case (Some p)
    with step have "f prev (prev p) (p # ac) = Some z" by simp
    from IH [OF this] show ?thesis by blast
  qed
qed

lemma get_page_route_endless:
  assumes "\<forall>q. previous_page C q \<noteq> None"
  shows "get_page_route C page = None"
proof (cases "walk_previous (previous_page C) (previous_page C page) []")
  case None
  then show ?thesis by (simp add: get_page_route_def)
next
  case (Some z)
  from walk_previous_endless [OF this] assms show ?thesis by simp
qed

subsection \<open>The claims about get_page_route\<close>

text \<open>
  C1. The claim: the first component of the result of \<open>get_page_route\<close> is the page
  that follows the starting page; for the chain A, B, C started at B it is C, with the
  pages A, B, C. The code returns its loop variable, which is None when the loop is
  left: started at B, whose successor is C, the result is None with the pages A, B, C.
\<close>

theorem get_page_route_abc_next_None:
  "get_page_route abc ''B'' = Some (None, [''A'', ''B'', ''C''])
     \<and> next_page abc ''B'' = Some ''C''"
  by (simp add: get_page_route_def abc_def walk_previous.simps walk_next.simps)

text \<open>
  C2. For every acyclic chain of pages and every starting page in it, at any position
  \<open>i\<close>, the list of pages that \<open>get_page_route\<close> returns is the chain itself: every
  page of the chain once, in the order of the links, the starting page at position \<open>i\<close>.
\<close>

theorem get_page_route_pages:
  assumes "page_chain C ps" and "i < length ps"
  shows "map_option snd (get_page_route C (ps ! i)) = Some ps \<and> distinct ps"
  using get_page_route_nth [OF assms] page_chain_distinct [OF assms(1)] by simp

theorem get_page_route_pages_witness:
  "page_chain abc [''A'', ''B'', ''C''] \<and> (1::nat) < length [''A'', ''B'', ''C'']
     \<and> map_option snd (get_page_route abc ([''A'', ''B'', ''C''] ! 1)) = Some [''A'', ''B'', ''C'']
     \<and> distinct [''A'', ''B'', ''C'']"
proof -
  have ch: "page_chain abc [''A'', ''B'', ''C'']"
    by (simp add: page_chain_def abc_def)
  have i: "(1::nat) < length [''A'', ''B'', ''C'']" by simp
  show ?thesis
    using ch i get_page_route_pages [OF ch i] by simp
qed

text \<open>
  C3. The claim: \<open>get_page_route\<close> terminates on every chain, and on a chain whose
  links form a cycle it fails fast with a structural-error signal. The code has no guard
  against cycles: on the ring of two pages the walk never returns, and no signal is
  raised.
\<close>

theorem get_page_route_ring_counterexample:
  "get_page_route ring ''A'' = None"
  by (rule get_page_route_endless) (simp add: ring_def)

text \<open>
  C3, as amended. For every acyclic chain of pages and every starting page in it,
  \<open>get_page_route\<close> terminates and returns a result. There is no guard against
  cycles: when every page has a predecessor, as on a ring, the function never returns,
  whatever the starting page.
\<close>

theorem get_page_route_terminates:
  "(page_chain C ps \<and> p \<in> set ps \<longrightarrow> (\<exists>r. get_page_route C p = Some r))
     \<and> ((\<forall>q. previous_page C q \<noteq> None) \<longrightarrow> get_page_route C p = None)"
proof (intro conjI impI)
  assume "page_chain C ps \<and> p \<in> set ps"
  then obtain i where ch: "page_chain C ps" and i: "i < length ps" "ps ! i = p"
    by (auto simp: in_set_conv_nth)
  from get_page_route_nth [OF ch i(1)] i(2)
  show "\<exists>r. get_page_route C p = Some r" by auto
next
  assume "\<forall>q. previous_page C q \<noteq> None"
  then show "get_page_route C p = None" by (rule get_page_route_endless)
qed

theorem get_page_route_terminates_witness:
  "page_chain abc [''A'', ''B'', ''C''] \<and> ''C'' \<in> set [''A'', ''B'', ''C'']
     \<and> (\<exists>r. get_page_route abc ''C'' = Some r)
     \<and> previous_page ring ''A'' = Some ''B'' \<and> previous_page ring ''B'' = Some ''A''
     \<and> get_page_route ring ''B'' = None"
proof -
  have ch: "page_chain abc [''A'', ''B'', ''C'']"
    by (simp add: page_chain_def abc_def)
  have m: "''C'' \<in> set [''A'', ''B'', ''C'']" by simp
  have cyc: "\<forall>q. previous_page ring q \<noteq> None" by (simp add: ring_def)
  have links: "previous_page ring ''A'' = Some ''B''" "previous_page ring ''B'' = Some ''A''"
    by (simp_all add: ring_def)
  show ?thesis
    using ch m cyc links
      get_page_route_terminates [of abc "[''A'', ''B'', ''C'']" "''C''"]
      get_page_route_terminates [of ring "[]" "''B''"]
    by simp
qed

section \<open>Properties of the sessions\<close>

subsection \<open>Keys\<close>

lemma fold_max_init: "a \<le> fold max ks (a::nat)"
proof (induction ks arbitrary: a)
  case Nil
  show ?case by simp
next
  case (Cons k ks)
  have "a \<le> max k a" by simp
  also have "\<dots> \<le> fold max ks (max k a)" by (rule Cons.IH)
  finally show ?case by simp
qed

lemma fold_max_member: "k \<in> set ks \<Longrightarrow> k \<le> fold max ks (a::nat)"
proof (induction ks arbitrary: a)
  case Nil
  then show ?case by simp
next
  case (Cons x ks)
  show ?case
  proof (cases "k = x")
    case True
    have "k \<le> max x a" using True by simp
    also have "\<dots> \<le> fold max ks (max x a)" by (rule fold_max_init)
    finally show ?thesis by simp
  next
    case False
    with Cons.prems have "k \<in> set ks" by simp
    from Cons.IH [OF this] show ?thesis by simp
  qed
qed

lemma next_pk_fresh: "next_pk ks \<notin> set ks"
proof
  assume "next_pk ks \<in> set ks"
  then have "next_pk ks \<le> fold max ks 0" by (rule fold_max_member)
  then show False by (simp add: next_pk_def)
qed

subsection \<open>The loop that copies selections\<close>

lemma copy_selection_other_tables:
  "session_objects (copy_selection s x d) = session_objects d"
  "choosable_objects (copy_selection s x d) = choosable_objects d"
  by (simp_all add: copy_selection_def)

lemma fold_copy_other_tables:
  "session_objects (fold (copy_selection s) xs d) = session_objects d"
  "choosable_objects (fold (copy_selection s) xs d) = choosable_objects d"
  by (induction xs arbitrary: d) (simp_all add: copy_selection_other_tables)

lemma copy_selection_of_other:
  "k \<noteq> session_pk s \<Longrightarrow> selections_of (copy_selection s x d) k = selections_of d k"
  by (simp add: copy_selection_def selections_of_def)

lemma fold_copy_of_other:
  "k \<noteq> session_pk s \<Longrightarrow> selections_of (fold (copy_selection s) xs d) k = selections_of d k"
  by (induction xs arbitrary: d) (simp_all add: copy_selection_of_other)

lemma copy_selection_test:
  "(length (filter (\<lambda>y. selection_session y = k \<and> facette y = f) (selection_objects d)) = 0)
     = (f \<notin> facette ` set (selections_of d k))"
  by (auto simp: selections_of_def filter_empty_conv)

lemma copy_selection_of_own:
  "selections_of (copy_selection s x d) (session_pk s) =
     (if facette x \<in> facette ` set (selections_of d (session_pk s))
      then selections_of d (session_pk s)
      else selections_of d (session_pk s) @
             [x\<lparr>selection_pk := next_pk (map selection_pk (selection_objects d)),
                selection_session := session_pk s\<rparr>])"
  unfolding copy_selection_def copy_selection_test
  by (simp add: selections_of_def)

lemma fold_copy_content:
  "distinct (map facette xs) \<Longrightarrow>
     map (\<lambda>x. (facette x, answer x)) (selections_of (fold (copy_selection s) xs d) (session_pk s)) =
     map (\<lambda>x. (facette x, answer x)) (selections_of d (session_pk s)) @
     map (\<lambda>x. (facette x, answer x))
       (filter (\<lambda>x. facette x \<notin> facette ` set (selections_of d (session_pk s))) xs)"
proof (induction xs arbitrary: d)
  case Nil
  show ?case by simp
next
  case (Cons x xs)
  let ?d1 = "copy_selection s x d"
  have dist: "distinct (map facette xs)" and notin: "facette x \<notin> facette ` set xs"
    using Cons.prems by auto
  have same: "filter (\<lambda>y. facette y \<notin> facette ` set (selections_of ?d1 (session_pk s))) xs =
              filter (\<lambda>y. facette y \<notin> facette ` set (selections_of d (session_pk s))) xs"
  proof (rule filter_cong [OF refl])
    fix y assume "y \<in> set xs"
    then have "facette y \<noteq> facette x" using notin by (metis imageI)
    then show "(facette y \<notin> facette ` set (selections_of ?d1 (session_pk s))) =
               (facette y \<notin> facette ` set (selections_of d (session_pk s)))"
      by (auto simp: copy_selection_of_own)
  qed
  show ?case
    using Cons.IH [OF dist, of ?d1] same
    by (simp add: copy_selection_of_own)
qed

lemma fold_copy_distinct_facette:
  "distinct (map facette (selections_of d (session_pk s))) \<Longrightarrow>
     distinct (map facette (selections_of (fold (copy_selection s) xs d) (session_pk s)))"
proof (induction xs arbitrary: d)
  case Nil
  then show ?case by simp
next
  case (Cons x xs)
  have "distinct (map facette (selections_of (copy_selection s x d) (session_pk s)))"
    using Cons.prems by (auto simp: copy_selection_of_own)
  from Cons.IH [OF this] show ?case by simp
qed

lemma fold_copy_covers:
  "facette ` set (selections_of d (session_pk s)) \<union> facette ` set xs
     \<subseteq> facette ` set (selections_of (fold (copy_selection s) xs d) (session_pk s))"
proof (induction xs arbitrary: d)
  case Nil
  show ?case by simp
next
  case (Cons x xs)
  have "facette ` set (selections_of d (session_pk s)) \<union> {facette x}
          \<subseteq> facette ` set (selections_of (copy_selection s x d) (session_pk s))"
    by (auto simp: copy_selection_of_own)
  with Cons.IH [of "copy_selection s x d"] show ?case
    by (simp only: fold_simps list.set image_insert) blast
qed

lemma fold_copy_distinct_pk:
  "distinct (map selection_pk (selection_objects d)) \<Longrightarrow>
     distinct (map selection_pk (selection_objects (fold (copy_selection s) xs d)))"
proof (induction xs arbitrary: d)
  case Nil
  then show ?case by simp
next
  case (Cons x xs)
  have "distinct (map selection_pk (selection_objects (copy_selection s x d)))"
    using Cons.prems next_pk_fresh [of "map selection_pk (selection_objects d)"]
    by (simp add: copy_selection_def)
  from Cons.IH [OF this] show ?case by simp
qed

lemma count_one:
  "distinct (map f ys) \<Longrightarrow> v \<in> f ` set ys \<Longrightarrow> length (filter (\<lambda>y. f y = v) ys) = 1"
proof (induction ys)
  case Nil
  then show ?case by simp
next
  case (Cons y ys)
  show ?case
  proof (cases "f y = v")
    case True
    have "f z \<noteq> v" if "z \<in> set ys" for z
      using Cons.prems(1) True that by (metis distinct.simps(2) imageI list.simps(9) set_map)
    then have "filter (\<lambda>y. f y = v) ys = []"
      by (simp add: filter_empty_conv)
    with True show ?thesis by simp
  next
    case False
    then show ?thesis using Cons by auto
  qed
qed

lemma fold_copy_content_general:
  "map (\<lambda>x. (facette x, answer x)) (selections_of (fold (copy_selection s) xs d) (session_pk s)) =
     map (\<lambda>x. (facette x, answer x)) (selections_of d (session_pk s)) @
     map (\<lambda>x. (facette x, answer x))
       (map snd (filter (\<lambda>(i, x). facette x \<notin> facette ` set (selections_of d (session_pk s))
                                \<and> facette x \<notin> facette ` set (take i xs))
                   (enumerate 0 xs)))"
proof (induction xs arbitrary: d)
  case Nil
  show ?case by simp
next
  case (Cons x xs)
  let ?k = "session_pk s"
  let ?d1 = "copy_selection s x d"
  let ?F = "\<lambda>d. facette ` set (selections_of d ?k)"
  have shift: "map snd (filter (\<lambda>(i, y). facette y \<notin> ?F d \<and> facette y \<notin> facette ` set (take i (x # xs)))
                  (enumerate (Suc 0) xs)) =
               map snd (filter (\<lambda>(i, y). facette y \<notin> ?F ?d1 \<and> facette y \<notin> facette ` set (take i xs))
                  (enumerate 0 xs))"
  proof -
    let ?P = "\<lambda>(i, y). facette y \<notin> ?F d \<and> facette y \<notin> facette ` set (take i (x # xs))"
    let ?Q = "\<lambda>(i, y). facette y \<notin> ?F ?d1 \<and> facette y \<notin> facette ` set (take i xs)"
    have PQ: "?P \<circ> apfst Suc = ?Q"
      by (rule ext) (auto simp: copy_selection_of_own)
    have "map snd (filter ?P (enumerate (Suc 0) xs))
            = map snd (map (apfst Suc) (filter (?P \<circ> apfst Suc) (enumerate 0 xs)))"
      by (simp only: enumerate_Suc_eq filter_map)
    also have "\<dots> = map snd (filter (?P \<circ> apfst Suc) (enumerate 0 xs))"
      by (simp add: o_def)
    finally show ?thesis by (simp only: PQ)
  qed
  show ?case
  proof (cases "facette x \<in> ?F d")
    case True
    then show ?thesis
      using Cons.IH [of ?d1] shift by (simp add: copy_selection_of_own)
  next
    case False
    then show ?thesis
      using Cons.IH [of ?d1] shift by (simp add: copy_selection_of_own)
  qed
qed

subsection \<open>Finding the old session again\<close>

lemma save_session_other_tables:
  "selection_objects (save_session s d) = selection_objects d"
  "choosable_objects (save_session s d) = choosable_objects d"
  by (simp_all add: save_session_def)

lemma selections_of_save_session: "selections_of (save_session s d) k = selections_of d k"
  by (simp add: selections_of_def save_session_other_tables)

lemma first_filter_replace:
  assumes "first (filter P rows) = Some old"
    and "\<And>r. r \<in> set rows \<Longrightarrow> key r = key s \<Longrightarrow> P s = P r"
  shows "\<exists>old'. first (filter P (map (\<lambda>r. if key r = key s then s else r) rows)) = Some old'
           \<and> key old' = key old"
  using assms
proof (induction rows)
  case Nil
  then show ?case by (simp add: first_def)
next
  case (Cons r rows)
  show ?case
  proof (cases "P r")
    case True
    then show ?thesis using Cons.prems by (auto simp: first_def)
  next
    case False
    then have "first (filter P rows) = Some old" using Cons.prems(1) by simp
    then have "\<exists>old'. first (filter P (map (\<lambda>r. if key r = key s then s else r) rows)) = Some old'
           \<and> key old' = key old"
      using Cons.prems(2) by (intro Cons.IH) auto
    moreover have "\<not> P (if key r = key s then s else r)"
      using False Cons.prems(2) [of r] by auto
    ultimately show ?thesis by simp
  qed
qed

lemma first_filter_append:
  "first (filter P rows) = Some old \<Longrightarrow> first (filter P (rows @ ys)) = Some old"
  by (cases "filter P rows") (simp_all add: first_def)

lemma find_after_save:
  assumes "first (filter (\<lambda>r. result_id r = i) (session_objects d)) = Some old"
    and "\<forall>r \<in> set (session_objects d). session_pk r = session_pk s \<longrightarrow> result_id r = result_id s"
  shows "\<exists>old'. first (filter (\<lambda>r. result_id r = i) (session_objects (save_session s d))) = Some old'
           \<and> session_pk old' = session_pk old"
proof (cases "session_pk s \<in> set (map session_pk (session_objects d))")
  case True
  have "\<exists>old'. first (filter (\<lambda>r. result_id r = i)
          (map (\<lambda>r. if session_pk r = session_pk s then s else r) (session_objects d))) = Some old'
           \<and> session_pk old' = session_pk old"
    using assms(1)
  proof (rule first_filter_replace)
    fix r assume "r \<in> set (session_objects d)" "session_pk r = session_pk s"
    then show "(result_id s = i) = (result_id r = i)" using assms(2) by auto
  qed
  then show ?thesis using True by (simp add: save_session_def)
next
  case False
  then have "session_objects (save_session s d) = session_objects d @ [s]"
    by (simp add: save_session_def)
  then show ?thesis
    using first_filter_append [OF assms(1), of "[s]"] by (simp del: filter_append)
qed

lemma clone_selections_first_call:
  assumes "first (filter (\<lambda>s. result_id s = id') (session_objects d)) = Some old_session"
    and "session_origin session = None"
  shows "clone_selections fresh id' request session d =
           (request,
            session\<lparr>valid_for := valid_for old_session,
                    session_origin := Some (session_pk old_session)\<rparr>,
            save_session
              (session\<lparr>valid_for := valid_for old_session,
                       session_origin := Some (session_pk old_session)\<rparr>)
              (fold (copy_selection session)
                 (selections_of d (session_pk old_session)) d))"
  using assms by (simp add: clone_selections_def Let_def)

subsection \<open>The claims about clone_selections\<close>

text \<open>
  C5. When the old session exists and the origin of the visitor's session is set to
  another session than the old one, \<open>clone_selections\<close> inserts one new session, with
  a key that no stored session has and with the old session as its origin, and stores
  the \<open>result_id\<close> of the new session under \<open>result_id\<close> in the visitor's session
  store. The session object that was passed stays as it was.
\<close>

theorem clone_selections_other_origin:
  assumes "first (filter (\<lambda>s. result_id s = id') (session_objects d)) = Some old_session"
    and "session_origin session = Some k" and "k \<noteq> session_pk old_session"
  shows "\<exists>new_session.
           clone_selections fresh id' request session d =
             (request\<lparr>req_session :=
                AList.update ''result_id'' (result_id new_session) (req_session request)\<rparr>,
              session,
              d\<lparr>session_objects := session_objects d @ [new_session]\<rparr>)
         \<and> session_pk new_session \<notin> set (map session_pk (session_objects d))
         \<and> session_origin new_session = Some (session_pk old_session)
         \<and> map_of (req_session (fst (clone_selections fresh id' request session d))) ''result_id''
               = Some (result_id new_session)"
proof -
  let ?n = "fresh\<lparr>user_agent := map_of (headers request) ''user-agent'',
                   session_origin := Some (session_pk old_session),
                   session_pk := next_pk (map session_pk (session_objects d))\<rparr>"
  show ?thesis
    using assms next_pk_fresh [of "map session_pk (session_objects d)"]
    by (intro exI [of _ ?n])
       (simp add: clone_selections_def insert_session_def Let_def update_conv')
qed

theorem clone_selections_other_origin_witness:
  "first (filter (\<lambda>s. result_id s = ''r1'') (session_objects store)) = Some s1
     \<and> session_origin s3 = Some 2 \<and> 2 \<noteq> session_pk s1
     \<and> map_of (req_session (fst (clone_selections blank ''r1'' visitor s3 store))) ''result_id''
           = Some ''r9''
     \<and> map session_pk (session_objects (snd (snd (clone_selections blank ''r1'' visitor s3 store))))
           = [1, 2, 3, 4]
     \<and> session_origin (last (session_objects
           (snd (snd (clone_selections blank ''r1'' visitor s3 store))))) = Some 1"
proof -
  have h1: "first (filter (\<lambda>s. result_id s = ''r1'') (session_objects store)) = Some s1"
    by (simp add: store_def s1_def s2_def s3_def first_def)
  have h2: "session_origin s3 = Some 2" by (simp add: s3_def)
  have h3: "2 \<noteq> session_pk s1" by (simp add: s1_def)
  show ?thesis
    using h1 h2 h3 clone_selections_other_origin [OF h1 h2 h3, where fresh = blank and request = visitor]
    by (simp add: clone_selections_def insert_session_def first_def next_pk_def Let_def
          store_def s1_def s2_def s3_def blank_def visitor_def)
qed

text \<open>
  C6. When the old session exists and the visitor's session has no origin,
  \<open>clone_selections\<close> leaves the request as it is, sets \<open>valid_for\<close> of the session to
  that of the old session and its origin to the old session, and saves the session. The
  selections of every other session stay as they are. The selections of the session are
  those it had, followed by copies (the same facette and answer) of exactly those
  selections of the old session whose facette is selected neither in the session
  beforehand nor by an earlier selection of the old session, that is, whose facette is
  not yet selected in the session when the loop reaches them. A session that held no
  two selections of one facette holds none afterwards, and the copies get keys that no
  stored selection has.
\<close>

theorem clone_selections_no_origin:
  assumes "first (filter (\<lambda>s. result_id s = id') (session_objects d)) = Some old_session"
    and "session_origin session = None"
  shows "case clone_selections fresh id' request session d of
           (request', session', d') \<Rightarrow>
             request' = request
           \<and> session' = session\<lparr>valid_for := valid_for old_session,
                                   session_origin := Some (session_pk old_session)\<rparr>
           \<and> session_objects d' = session_objects (save_session session' d)
           \<and> (\<forall>k. k \<noteq> session_pk session \<longrightarrow> selections_of d' k = selections_of d k)
           \<and> map (\<lambda>x. (facette x, answer x)) (selections_of d' (session_pk session)) =
               map (\<lambda>x. (facette x, answer x)) (selections_of d (session_pk session)) @
               map (\<lambda>x. (facette x, answer x))
                 (map snd
                    (filter (\<lambda>(i, x).
                        facette x \<notin> facette ` set (selections_of d (session_pk session))
                        \<and> facette x \<notin> facette `
                              set (take i (selections_of d (session_pk old_session))))
                       (enumerate 0 (selections_of d (session_pk old_session)))))
           \<and> (distinct (map facette (selections_of d (session_pk session))) \<longrightarrow>
                distinct (map facette (selections_of d' (session_pk session))))
           \<and> (distinct (map selection_pk (selection_objects d)) \<longrightarrow>
                distinct (map selection_pk (selection_objects d')))"
proof -
  let ?s' = "session\<lparr>valid_for := valid_for old_session,
                      session_origin := Some (session_pk old_session)\<rparr>"
  let ?d1 = "fold (copy_selection session) (selections_of d (session_pk old_session)) d"
  have so: "session_objects (save_session ?s' ?d1) = session_objects (save_session ?s' d)"
    by (simp add: save_session_def fold_copy_other_tables)
  show ?thesis
    unfolding clone_selections_first_call [OF assms]
    by (simp add: so selections_of_save_session save_session_other_tables
          fold_copy_of_other fold_copy_content_general fold_copy_distinct_facette
          fold_copy_distinct_pk)
qed

theorem clone_selections_no_origin_witness:
  "first (filter (\<lambda>s. result_id s = ''r1'') (session_objects store)) = Some s1
     \<and> session_origin s2 = None
     \<and> distinct (map facette (selections_of store (session_pk s2)))
     \<and> distinct (map selection_pk (selection_objects store))
     \<and> (case clone_selections blank ''r1'' visitor s2 store of
           (request', session', d') \<Rightarrow>
             valid_for session' = ''v3'' \<and> session_origin session' = Some 1
           \<and> map (\<lambda>x. (facette x, answer x)) (selections_of d' 2) = [(8, ''z''), (7, ''x'')]
           \<and> map (\<lambda>x. (facette x, answer x)) (selections_of d' 1) = [(7, ''x''), (8, ''w'')]
           \<and> distinct (map facette (selections_of d' 2))
           \<and> distinct (map selection_pk (selection_objects d')))"
proof -
  have h1: "first (filter (\<lambda>s. result_id s = ''r1'') (session_objects store)) = Some s1"
    by (simp add: store_def s1_def s2_def s3_def first_def)
  have h2: "session_origin s2 = None" by (simp add: s2_def)
  have h3: "distinct (map facette (selections_of store (session_pk s2)))"
    by (simp add: store_def s2_def selections_of_def)
  have h4: "distinct (map selection_pk (selection_objects store))"
    by (simp add: store_def)
  show ?thesis
    using h1 h2 h3 h4
      clone_selections_no_origin [OF h1 h2, where fresh = blank and request = visitor]
    by (simp add: clone_selections_def copy_selection_def save_session_def selections_of_def
          first_def next_pk_def Let_def store_def s1_def s2_def s3_def)
qed

text \<open>
  C4. The claim: for every old session and every new session, two calls in a row leave
  one copy of each selection of the old session in the new session, and the second
  call changes nothing. When the origin of the new session is another session than
  the old one, each call inserts a further session and copies nothing: after the first
  call there are four stored sessions, after the second five, and the session \<open>s3\<close>
  holds no selection.
\<close>

theorem clone_selections_twice_counterexample:
  "clone_selections (blank\<lparr>result_id := ''r8''\<rparr>) ''r1''
       (fst cloned_once) (fst (snd cloned_once)) (snd (snd cloned_once)) \<noteq> cloned_once
     \<and> length (session_objects (snd (snd cloned_once))) = 4
     \<and> length (session_objects (snd (snd
           (clone_selections (blank\<lparr>result_id := ''r8''\<rparr>) ''r1''
              (fst cloned_once) (fst (snd cloned_once)) (snd (snd cloned_once)))))) = 5
     \<and> selections_of (snd (snd
           (clone_selections (blank\<lparr>result_id := ''r8''\<rparr>) ''r1''
              (fst cloned_once) (fst (snd cloned_once)) (snd (snd cloned_once)))))
           (session_pk s3) = []"
  by (simp add: cloned_once_def clone_selections_def insert_session_def first_def Let_def
        selections_of_def store_def s1_def s2_def s3_def blank_def visitor_def next_pk_def)

text \<open>
  C4, as amended. Let the old session exist, let the stored row of the new session carry
  the \<open>result_id\<close> of the session object, and let the new session have no origin or
  the old session as its origin. Then a second call with the same identifier changes
  neither the request nor the session object nor the database. When the new session
  had no origin and held no two selections of one facette, it holds afterwards exactly
  one selection of the facette of each selection of the old session.
\<close>

theorem clone_selections_twice:
  assumes "first (filter (\<lambda>s. result_id s = id') (session_objects d)) = Some old_session"
    and "\<forall>r \<in> set (session_objects d).
           session_pk r = session_pk session \<longrightarrow> result_id r = result_id session"
    and "session_origin session = None
           \<or> session_origin session = Some (session_pk old_session)"
  shows "case clone_selections fresh id' request session d of
           (request1, session1, d1) \<Rightarrow>
             clone_selections fresh' id' request1 session1 d1 = (request1, session1, d1)
           \<and> (session_origin session = None \<longrightarrow>
                distinct (map facette (selections_of d (session_pk session))) \<longrightarrow>
                (\<forall>x \<in> set (selections_of d (session_pk old_session)).
                   length (filter (\<lambda>y. facette y = facette x)
                             (selections_of d1 (session_pk session))) = 1))"
proof (cases "session_origin session")
  case None
  let ?s' = "session\<lparr>valid_for := valid_for old_session,
                      session_origin := Some (session_pk old_session)\<rparr>"
  let ?d1 = "fold (copy_selection session) (selections_of d (session_pk old_session)) d"
  have "\<exists>old'. first (filter (\<lambda>r. result_id r = id') (session_objects (save_session ?s' ?d1)))
                  = Some old' \<and> session_pk old' = session_pk old_session"
    using assms(1,2) by (intro find_after_save) (simp_all add: fold_copy_other_tables)
  then have again: "clone_selections fresh' id' request ?s' (save_session ?s' ?d1)
                      = (request, ?s', save_session ?s' ?d1)"
    by (auto simp: clone_selections_def)
  have one: "length (filter (\<lambda>y. facette y = facette x)
                       (selections_of (save_session ?s' ?d1) (session_pk session))) = 1"
    if "distinct (map facette (selections_of d (session_pk session)))"
      and "x \<in> set (selections_of d (session_pk old_session))" for x
  proof (rule count_one)
    show "distinct (map facette (selections_of (save_session ?s' ?d1) (session_pk session)))"
      using that(1) by (simp add: selections_of_save_session fold_copy_distinct_facette)
    show "facette x \<in> facette ` set (selections_of (save_session ?s' ?d1) (session_pk session))"
      using that(2) fold_copy_covers [of d session "selections_of d (session_pk old_session)"]
      by (auto simp: selections_of_save_session)
  qed
  show ?thesis
    unfolding clone_selections_first_call [OF assms(1) None]
    using again one by simp
next
  case (Some k)
  with assms(3) have "session_origin session = Some (session_pk old_session)" by simp
  then have "clone_selections f id' request session d = (request, session, d)" for f
    using assms(1) by (simp add: clone_selections_def)
  then show ?thesis using Some by simp
qed

theorem clone_selections_twice_witness:
  "first (filter (\<lambda>s. result_id s = ''r1'') (session_objects store)) = Some s1
     \<and> map result_id (filter (\<lambda>r. session_pk r = session_pk s2) (session_objects store))
           = [result_id s2]
     \<and> session_origin s2 = None
     \<and> distinct (map facette (selections_of store (session_pk s2)))
     \<and> (case clone_selections blank ''r1'' visitor s2 store of
           (request1, session1, d1) \<Rightarrow>
             clone_selections (blank\<lparr>result_id := ''r8''\<rparr>) ''r1'' request1 session1 d1
               = (request1, session1, d1)
           \<and> length (filter (\<lambda>y. facette y = 7) (selections_of d1 2)) = 1
           \<and> length (filter (\<lambda>y. facette y = 8) (selections_of d1 2)) = 1)"
proof -
  have h1: "first (filter (\<lambda>s. result_id s = ''r1'') (session_objects store)) = Some s1"
    by (simp add: store_def s1_def s2_def s3_def first_def)
  have h2: "\<forall>r \<in> set (session_objects store).
              session_pk r = session_pk s2 \<longrightarrow> result_id r = result_id s2"
    by (simp add: store_def s1_def s2_def s3_def)
  have h3: "session_origin s2 = None" by (simp add: s2_def)
  have h4: "distinct (map facette (selections_of store (session_pk s2)))"
    by (simp add: store_def s2_def selections_of_def)
  have h5: "map result_id (filter (\<lambda>r. session_pk r = session_pk s2) (session_objects store))
              = [result_id s2]"
    by (simp add: store_def s1_def s2_def s3_def)
  show ?thesis
    using h1 h3 h4 h5
      clone_selections_twice [OF h1 h2 disjI1 [OF h3], where fresh = blank
        and request = visitor and fresh' = "blank\<lparr>result_id := ''r8''\<rparr>"]
    by (simp add: clone_selections_def copy_selection_def save_session_def selections_of_def
          first_def next_pk_def Let_def store_def s1_def s2_def s3_def)
qed

subsection \<open>get_session\<close>

text \<open>
  The four ways through \<open>get_session\<close> on a page that requires a session, and the
  way on a page that does not.
\<close>

lemma get_session_no_identifier:
  assumes "require_session C page"
    and "map_of (req_session request) ''result_id'' = None"
  shows "get_session fresh C page request d =
           (case get_fresh_session fresh request d of
              (session, d') \<Rightarrow>
                Inr (session,
                     request\<lparr>req_session :=
                       AList.update ''result_id'' (result_id session) (req_session request)\<rparr>,
                     d'))"
  using assms by (simp add: get_session_def split: prod.splits)

lemma get_session_latest:
  assumes "require_session C page"
    and "map_of (req_session request) ''result_id'' = Some rid"
    and "first (filter (\<lambda>s. result_id s = rid) (session_objects d)) = Some session"
    and "valid_for session = ''latest''"
  shows "get_session fresh C page request d =
           Inr (session,
                request\<lparr>req_session :=
                  AList.update ''result_id'' (result_id session) (req_session request)\<rparr>,
                d)"
  using assms by (simp add: get_session_def)

lemma get_session_stale:
  assumes "require_session C page"
    and "map_of (req_session request) ''result_id'' = Some rid"
    and "first (filter (\<lambda>s. result_id s = rid) (session_objects d)) = Some session"
    and "valid_for session \<noteq> ''latest''"
  shows "get_session fresh C page request d =
           (case get_fresh_session fresh request d of
              (session', d') \<Rightarrow>
                Inr (session',
                     request\<lparr>req_session :=
                       AList.update ''result_id'' (result_id session') (req_session request)\<rparr>,
                     d'))"
  using assms by (simp add: get_session_def split: prod.splits)

lemma get_session_not_found:
  assumes "require_session C page"
    and "map_of (req_session request) ''result_id'' = Some rid"
    and "first (filter (\<lambda>s. result_id s = rid) (session_objects d)) = None"
  shows "get_session fresh C page request d = Inl AttributeError"
  using assms by (simp add: get_session_def)

lemma get_session_not_required:
  assumes "\<not> require_session C page"
  shows "get_session fresh C page request d = Inl AttributeError"
  using assms by (simp add: get_session_def)

text \<open>A fresh session is a new row: its key is the key of no stored session.\<close>

lemma get_fresh_session_new:
  "get_fresh_session fresh request d = (session, d') \<Longrightarrow>
     session_pk session \<notin> set (map session_pk (session_objects d))
     \<and> session_objects d' = session_objects d @ [session\<lparr>referrer := referrer fresh\<rparr>]
     \<and> user_agent session = map_of (headers request) ''user-agent''"
  using next_pk_fresh [of "map session_pk (session_objects d)"]
  by (auto simp: get_fresh_session_def insert_session_def Let_def)

text \<open>
  C7. The claim: on a page that requires a session, a visitor whose identifier matches
  no stored session gets a freshly created session, as does a visitor whose session is
  not valid for "latest". The second part holds (\<open>get_session_stale\<close>, with
  \<open>get_session_latest\<close> for the session that is reused). For the first part the code
  reads \<open>valid_for\<close> of the result of \<open>first()\<close> without a test: the visitor with the
  identifier r0, which no stored session has, gets \<open>AttributeError\<close> on page B.
\<close>

theorem get_session_unknown_identifier:
  "map_of (req_session stranger) ''result_id'' = Some ''r0''
     \<and> filter (\<lambda>s. result_id s = ''r0'') (session_objects store) = []
     \<and> require_session abc ''B''
     \<and> get_session blank abc ''B'' stranger store = Inl AttributeError"
  by (simp add: get_session_def abc_def stranger_def store_def s1_def s2_def s3_def first_def)

text \<open>
  C10. The claim: on a page whose flag \<open>require_session\<close> is false, \<open>get_session\<close>
  completes without error and creates no session. The code leaves its variable
  \<open>session\<close> at \<open>None\<close> and then reads \<open>session.result_id\<close>: on the welcome page A,
  which requires no session, the result is \<open>AttributeError\<close>.
\<close>

theorem get_session_welcome_page:
  "\<not> require_session abc ''A''
     \<and> get_session blank abc ''A'' first_visit store = Inl AttributeError"
  by (simp add: get_session_def abc_def)

section \<open>Properties of the outgoing links\<close>











section \<open>Properties of route_index\<close>

text \<open>
  With a path longer than the start page's, a page that is not visible and has no
  visible substitute is not answered with 405 either: the call of \<open>_\<close> raises
  \<open>TypeError\<close>.
\<close>

lemma route_index_hidden_type_error:
  "route_index plain_site blank blank hidden visitor (Some ''en'') None store
     = Some (Inl TypeError)"
  by (simp add: route_index_def requested_page_def visitor_def hidden_def first_def
        get_page_route_def walk_previous.simps walk_next.simps get_session_def
        plain_site_def get_categories_and_filtered_pages_def respond_def build_step_data_def
        Let_def store_def s1_def s2_def s3_def)

text \<open>
  C9. The claim: when no page of the chain is visible for the session, \<open>route_index\<close>
  answers with the "method not allowed" response (405) and fails in no other way. On
  the start page (a full path of at most one character) the code reads the first of
  the visible pages before it comes to that answer: with no visible page, a first
  visit of "/" ends in \<open>IndexError\<close>. (On any other path the answer is not built
  either, see \<open>route_index_hidden_type_error\<close>.)
\<close>

theorem route_index_start_page_no_visible_page:
  "fst (get_categories_and_filtered_pages hidden [''A'', ''B'', ''C''] blank store) = []
     \<and> full_path first_visit = ''/''
     \<and> route_index plain_site blank blank hidden first_visit None None store
           = Some (Inl IndexError)"
  by (simp add: route_index_def requested_page_def first_visit_def hidden_def first_def
        get_page_route_def walk_previous.simps walk_next.simps get_session_def
        get_fresh_session_def insert_session_def plain_site_def
        get_categories_and_filtered_pages_def respond_def Let_def blank_def save_session_def)

end
